theory Spec2Isabelle
  imports Complex_Main "HOL-Library.Multiset" "HOL-Library.Log_Nat"
begin

section \<open>Exceptions, strings and the values of a sort key\<close>

text \<open>
  The program is one Python class, \<open>CSVSorter\<close>. Every exception it can meet is a value
  of \<open>pyexc\<close>; a computation that may raise returns \<open>pyexc + 'a\<close> with \<open>Inl\<close> for the
  exception.
\<close>

datatype pyexc =
    ValueError | TypeError | IndexError | KeyError | ZeroDivisionError
  | OverflowError | StopIteration | FileNotFoundError | OSError | UnicodeDecodeError
  | CsvError

text \<open>
  A Python \<open>str\<close> is a sequence of code points. The model covers the code points below
  256 and writes them as \<open>char\<close>, so a cell is a \<open>string\<close>. \<open>isspace\<close> and \<open>lower\<close> are
  Python's \<open>str.isspace\<close> and \<open>str.lower\<close> on these code points.
\<close>

definition isspace :: "char \<Rightarrow> bool" where
  "isspace c = ((of_char c :: nat) \<in> {9, 10, 11, 12, 13, 28, 29, 30, 31, 32, 133, 160})"

definition strip :: "string \<Rightarrow> string" where
  "strip s = rev (dropWhile isspace (rev (dropWhile isspace s)))"

definition lower_char :: "char \<Rightarrow> char" where
  "lower_char c =
     (let n = (of_char c :: nat)
      in if 65 \<le> n \<and> n \<le> 90 then char_of (n + 32)
         else if n = 215 then c
         else if 192 \<le> n \<and> n \<le> 222 then char_of (n + 32)
         else c)"

definition lower :: "string \<Rightarrow> string" where
  "lower s = map lower_char s"

text \<open>\<open>value.replace(',', '.')\<close>\<close>

definition replace_comma :: "string \<Rightarrow> string" where
  "replace_comma s = map (\<lambda>c. if c = CHR '','' then CHR ''.'' else c) s"

text \<open>\<open>delimiter.join(row)\<close>\<close>

fun join :: "string \<Rightarrow> string list \<Rightarrow> string" where
  "join d [] = []"
| "join d [x] = x"
| "join d (x # y # ys) = x @ d @ join d (y # ys)"

text \<open>
  A Python \<open>float\<close> is minus infinity, a finite number, plus infinity or a NaN; only its
  comparisons are used, so a finite float is the rational it denotes. A \<open>datetime\<close> is
  naive (microseconds of wall-clock time since \<open>datetime.min\<close>) or aware (the instant in
  UTC, which is what Python compares).
\<close>

datatype pyfloat = NegInf | Fin rat | PosInf | NaN

datatype pydatetime = Naive int | Aware int

definition datetime_min :: pydatetime where
  "datetime_min = Naive 0"

text \<open>What \<open>sort_value\<close> returns: \<open>Union[str, float, datetime]\<close>.\<close>

datatype pyvalue = Str string | Float pyfloat | Date pydatetime

text \<open>Comparison of strings: lexicographic on code points.\<close>

fun str_lt :: "string \<Rightarrow> string \<Rightarrow> bool" where
  "str_lt [] [] = False"
| "str_lt [] (y # ys) = True"
| "str_lt (x # xs) [] = False"
| "str_lt (x # xs) (y # ys) =
     (if x = y then str_lt xs ys else (of_char x :: nat) < of_char y)"

text \<open>Comparison of floats (IEEE 754): a NaN is neither equal to nor below anything.\<close>

fun float_eq :: "pyfloat \<Rightarrow> pyfloat \<Rightarrow> bool" where
  "float_eq NaN y = False"
| "float_eq x NaN = False"
| "float_eq (Fin a) (Fin b) = (a = b)"
| "float_eq NegInf NegInf = True"
| "float_eq PosInf PosInf = True"
| "float_eq x y = False"

fun float_lt :: "pyfloat \<Rightarrow> pyfloat \<Rightarrow> bool" where
  "float_lt NaN y = False"
| "float_lt x NaN = False"
| "float_lt (Fin a) (Fin b) = (a < b)"
| "float_lt NegInf NegInf = False"
| "float_lt NegInf y = True"
| "float_lt x NegInf = False"
| "float_lt PosInf y = False"
| "float_lt x PosInf = True"

text \<open>
  \<open>==\<close> between two values never raises: values of different types, and a naive and an
  aware datetime, are unequal. \<open><\<close> raises \<open>TypeError\<close> in exactly these cases.
\<close>

fun py_eq :: "pyvalue \<Rightarrow> pyvalue \<Rightarrow> bool" where
  "py_eq (Str a) (Str b) = (a = b)"
| "py_eq (Float a) (Float b) = float_eq a b"
| "py_eq (Date (Naive a)) (Date (Naive b)) = (a = b)"
| "py_eq (Date (Aware a)) (Date (Aware b)) = (a = b)"
| "py_eq x y = False"

fun py_lt :: "pyvalue \<Rightarrow> pyvalue \<Rightarrow> pyexc + bool" where
  "py_lt (Str a) (Str b) = Inr (str_lt a b)"
| "py_lt (Float a) (Float b) = Inr (float_lt a b)"
| "py_lt (Date (Naive a)) (Date (Naive b)) = Inr (a < b)"
| "py_lt (Date (Aware a)) (Date (Aware b)) = Inr (a < b)"
| "py_lt x y = Inl TypeError"


fun tuple_lt :: "pyvalue list \<Rightarrow> pyvalue list \<Rightarrow> pyexc + bool" where
  "tuple_lt [] [] = Inr False"
| "tuple_lt [] (y # ys) = Inr True"
| "tuple_lt (x # xs) [] = Inr False"
| "tuple_lt (x # xs) (y # ys) = (if py_eq x y then tuple_lt xs ys else py_lt x y)"

section \<open>The library functions the program calls\<close>

text \<open>
  \<open>float\<close> and \<open>dateutil.parser.parse\<close> are not code of this program: they are
  parameters of the model. \<open>float(s)\<close> on a string returns a float or raises
  \<open>ValueError\<close> (\<open>None\<close>); the date parser returns a datetime or raises.

  \<open>a / b\<close> on two integers is the quotient rounded to the nearest double, ties to even:
  the quotient is scaled by a power of two into the range of 53-bit integers, rounded
  there and scaled back. The operands of the program are lengths of lists, so the
  exponent range of a double is never left and is not modelled.
\<close>

definition round_half_even :: "rat \<Rightarrow> int" where
  "round_half_even x =
     (let f = \<lfloor>x\<rfloor>; r = x - of_int f
      in if r < 1 / 2 then f else if 1 / 2 < r then f + 1
         else if even f then f else f + 1)"

text \<open>\<open>float_exponent a b\<close> is the integer \<open>e\<close> with \<open>2^e \<le> a / b < 2^(e + 1)\<close>.\<close>

definition float_exponent :: "nat \<Rightarrow> nat \<Rightarrow> int" where
  "float_exponent a b =
     (let d = bitlen (int a) - bitlen (int b)
      in if (if 0 \<le> d then b * 2 ^ nat d \<le> a else b \<le> a * 2 ^ nat (- d)) then d else d - 1)"

definition truediv :: "nat \<Rightarrow> nat \<Rightarrow> pyexc + rat" where
  "truediv a b =
     (if b = 0 then Inl ZeroDivisionError
      else if a = 0 then Inr 0
      else let k = 52 - float_exponent a b
           in Inr (if 0 \<le> k
                   then of_int (round_half_even (of_nat a * 2 ^ nat k / of_nat b)) / 2 ^ nat k
                   else of_int (round_half_even (of_nat a / (of_nat b * 2 ^ nat (- k))))
                          * 2 ^ nat (- k)))"

text \<open>The literal \<open>0.8\<close> is the double nearest to 4/5.\<close>

definition float_0_8 :: rat where
  "float_0_8 = 3602879701896397 / 4503599627370496"

text \<open>\<open>header.index(field_name)\<close>: the first position, or \<open>ValueError\<close>.\<close>

fun index :: "'a list \<Rightarrow> 'a \<Rightarrow> pyexc + nat" where
  "index [] x = Inl ValueError"
| "index (y # ys) x =
     (if y = x then Inr 0
      else case index ys x of Inl e \<Rightarrow> Inl e | Inr i \<Rightarrow> Inr (Suc i))"

text \<open>\<open>row[i]\<close> for a non-negative \<open>i\<close>.\<close>

definition getitem :: "'a list \<Rightarrow> nat \<Rightarrow> pyexc + 'a" where
  "getitem xs i = (if i < length xs then Inr (xs ! i) else Inl IndexError)"

text \<open>
  \<open>sorted(rows, key=..., reverse=...)\<close>, by its documented contract: the key of every
  row is computed first, in order; the sort compares keys with \<open><\<close> only and is stable;
  with \<open>reverse\<close> the list is reversed, sorted and reversed again, which keeps rows with
  equal keys in their original order; an exception of the key function or of a
  comparison leaves the call. The stable sort is an insertion sort: a row goes in front
  of the first row of the sorted rest whose key is not below its own.
\<close>

fun mapM :: "('a \<Rightarrow> pyexc + 'b) \<Rightarrow> 'a list \<Rightarrow> pyexc + 'b list" where
  "mapM f [] = Inr []"
| "mapM f (x # xs) =
     (case f x of Inl e \<Rightarrow> Inl e
      | Inr y \<Rightarrow> (case mapM f xs of Inl e \<Rightarrow> Inl e | Inr ys \<Rightarrow> Inr (y # ys)))"

fun insert_by :: "('k \<Rightarrow> 'k \<Rightarrow> pyexc + bool) \<Rightarrow> 'k \<times> 'r \<Rightarrow> ('k \<times> 'r) list \<Rightarrow> pyexc + ('k \<times> 'r) list" where
  "insert_by lt x [] = Inr [x]"
| "insert_by lt x (y # ys) =
     (case lt (fst y) (fst x) of
        Inl e \<Rightarrow> Inl e
      | Inr True \<Rightarrow> (case insert_by lt x ys of Inl e \<Rightarrow> Inl e | Inr zs \<Rightarrow> Inr (y # zs))
      | Inr False \<Rightarrow> Inr (x # y # ys))"

fun stable_sort :: "('k \<Rightarrow> 'k \<Rightarrow> pyexc + bool) \<Rightarrow> ('k \<times> 'r) list \<Rightarrow> pyexc + ('k \<times> 'r) list" where
  "stable_sort lt [] = Inr []"
| "stable_sort lt (x # xs) =
     (case stable_sort lt xs of Inl e \<Rightarrow> Inl e | Inr ys \<Rightarrow> insert_by lt x ys)"

definition sorted_py ::
  "('k \<Rightarrow> 'k \<Rightarrow> pyexc + bool) \<Rightarrow> ('r \<Rightarrow> pyexc + 'k) \<Rightarrow> bool \<Rightarrow> 'r list \<Rightarrow> pyexc + 'r list" where
  "sorted_py lt key reverse rows =
     (case mapM key rows of
        Inl e \<Rightarrow> Inl e
      | Inr keys \<Rightarrow>
          (let keyed = zip keys rows
           in case stable_sort lt (if reverse then rev keyed else keyed) of
                Inl e \<Rightarrow> Inl e
              | Inr s \<Rightarrow> Inr (map snd (if reverse then rev s else s))))"

section \<open>Configuration and files\<close>

text \<open>
  An entry of \<open>sort_config['fields']\<close> is a dictionary with the keys \<open>name\<close>, \<open>type\<close> and
  \<open>order\<close>; \<open>sort_config\<close> has \<open>delimiter\<close>, \<open>fields\<close> (here \<open>sort_fields\<close>) and \<open>order\<close>. All are
  Python strings in the source, and stay strings here.
\<close>

record field_config =
  name :: string
  ftype :: string
  forder :: string

record sort_config =
  delimiter :: string
  sort_fields :: "field_config list"
  order :: string

record config =
  input_files :: "string list"
  sort_cfg :: sort_config

text \<open>
  What opening and reading \<open>INPUT/<filename>.csv\<close> gives: the file does not exist;
  opening it or reading its first row raises; the first row is read and a later one
  raises; or \<open>csv.reader\<close> returns the rows (none for an empty file). The input
  directory is a function from the configured file names.
\<close>

datatype pyfile =
    Missing
  | ReadError pyexc
  | BodyError "string list" pyexc
  | Csv "string list list"

definition exists :: "pyfile \<Rightarrow> bool" where
  "exists f = (f \<noteq> Missing)"

text \<open>\<open>next(reader)\<close> on the opened file.\<close>

fun read_header :: "pyfile \<Rightarrow> pyexc + string list" where
  "read_header Missing = Inl FileNotFoundError"
| "read_header (ReadError e) = Inl e"
| "read_header (BodyError header e) = Inr header"
| "read_header (Csv []) = Inl StopIteration"
| "read_header (Csv (header # rows)) = Inr header"

text \<open>\<open>list(reader)\<close> on the opened file.\<close>

fun read_rows :: "pyfile \<Rightarrow> pyexc + string list list" where
  "read_rows Missing = Inl FileNotFoundError"
| "read_rows (ReadError e) = Inl e"
| "read_rows (BodyError header e) = Inl e"
| "read_rows (Csv rows) = Inr rows"

text \<open>Sequencing of computations that may raise.\<close>

fun bind_exc :: "pyexc + 'a \<Rightarrow> ('a \<Rightarrow> pyexc + 'b) \<Rightarrow> pyexc + 'b" where
  "bind_exc (Inl e) f = Inl e"
| "bind_exc (Inr x) f = f x"

text \<open>A dictionary that is iterated or counted: an association list, \<open>d[k] = v\<close>.\<close>

fun dict_set :: "'k \<Rightarrow> 'v \<Rightarrow> ('k \<times> 'v) list \<Rightarrow> ('k \<times> 'v) list" where
  "dict_set k v [] = [(k, v)]"
| "dict_set k v ((k', v') # d) =
     (if k' = k then (k, v) # d else (k', v') # dict_set k v d)"

text \<open>\<open>set.intersection(*sets)\<close>; without an argument it raises \<open>TypeError\<close>.\<close>

fun set_intersection :: "'a set list \<Rightarrow> pyexc + 'a set" where
  "set_intersection [] = Inl TypeError"
| "set_intersection (s # ss) = Inr (fold (\<lambda>t acc. acc \<inter> t) ss s)"

text \<open>The log: the level of each record and what it reports.\<close>

datatype log_level = DEBUG | INFO | WARNING | ERROR

datatype log_message =
    File_headers string "string list"
  | Header_read_error string pyexc
  | Not_enough_files
  | Common_headers "string set"
  | Field_used string
  | Field_skipped string
  | No_common_fields
  | Final_fields "string list"

type_synonym log = "(log_level \<times> log_message) list"

section \<open>\<open>CSVSorter.get_common_sort_fields\<close>\<close>

text \<open>The loop over \<open>config['input_files']\<close> that fills \<open>file_headers\<close>.\<close>

fun collect_headers ::
  "(string \<Rightarrow> pyfile) \<Rightarrow> string list \<Rightarrow> (string \<times> string set) list
     \<Rightarrow> log \<times> (string \<times> string set) list" where
  "collect_headers input_dir [] file_headers = ([], file_headers)"
| "collect_headers input_dir (filename # rest) file_headers =
     (if exists (input_dir filename) then
        (case read_header (input_dir filename) of
           Inr header \<Rightarrow>
             (let (l, d) = collect_headers input_dir rest (dict_set filename (set header) file_headers)
              in ((DEBUG, File_headers filename header) # l, d))
         | Inl e \<Rightarrow>
             (let (l, d) = collect_headers input_dir rest (dict_set filename {} file_headers)
              in ((ERROR, Header_read_error filename e) # l, d)))
      else collect_headers input_dir rest (dict_set filename {} file_headers))"

text \<open>The loop over \<open>sort_config['fields']\<close> that keeps the fields in \<open>common_headers\<close>.\<close>

fun filter_fields :: "string set \<Rightarrow> field_config list \<Rightarrow> log \<times> field_config list" where
  "filter_fields common_headers [] = ([], [])"
| "filter_fields common_headers (field_config # rest) =
     (let (l, common_sort_fields) = filter_fields common_headers rest
      in if name field_config \<in> common_headers
         then ((INFO, Field_used (name field_config)) # l, field_config # common_sort_fields)
         else ((WARNING, Field_skipped (name field_config)) # l, common_sort_fields))"

definition get_common_sort_fields ::
  "config \<Rightarrow> (string \<Rightarrow> pyfile) \<Rightarrow> log \<times> (pyexc + field_config list)" where
  "get_common_sort_fields cfg input_dir =
     (let (l1, file_headers) = collect_headers input_dir (input_files cfg) []
      in if length file_headers < 2
         then (l1 @ [(WARNING, Not_enough_files)], Inr (sort_fields (sort_cfg cfg)))
         else case set_intersection (map snd file_headers) of
                Inl e \<Rightarrow> (l1, Inl e)
              | Inr common_headers \<Rightarrow>
                  (let (l2, common_sort_fields) = filter_fields common_headers (sort_fields (sort_cfg cfg));
                       l = l1 @ [(INFO, Common_headers common_headers)] @ l2
                   in if common_sort_fields = []
                      then (l @ [(ERROR, No_common_fields)], Inr [])
                      else (l @ [(INFO, Final_fields (map name common_sort_fields))],
                            Inr common_sort_fields)))"

section \<open>\<open>CSVSorter.detect_field_type\<close>\<close>

text \<open>
  The second loop counts the values the date parser accepts; \<open>ValueError\<close> and
  \<open>TypeError\<close> are caught, any other exception of the parser leaves the function.
\<close>

fun count_dates :: "(string \<Rightarrow> pyexc + pydatetime) \<Rightarrow> string list \<Rightarrow> pyexc + nat" where
  "count_dates parse [] = Inr 0"
| "count_dates parse (v # vs) =
     (case parse v of
        Inr d \<Rightarrow> bind_exc (count_dates parse vs) (\<lambda>n. Inr (Suc n))
      | Inl e \<Rightarrow> if e = ValueError \<or> e = TypeError then count_dates parse vs else Inl e)"

definition detect_field_type ::
  "(string \<Rightarrow> pyfloat option) \<Rightarrow> (string \<Rightarrow> pyexc + pydatetime) \<Rightarrow> string list \<Rightarrow> pyexc + string" where
  "detect_field_type float parse sample_values =
     (if sample_values = [] then Inr ''text''
      else let non_empty = map strip (filter (\<lambda>v. strip v \<noteq> []) sample_values)
           in if non_empty = [] then Inr ''text''
              else let number_count = length (filter (\<lambda>v. float (replace_comma v) \<noteq> None) non_empty)
                   in bind_exc (truediv number_count (length non_empty)) (\<lambda>q.
                        if float_0_8 < q then Inr ''number''
                        else bind_exc (count_dates parse non_empty) (\<lambda>date_count.
                             bind_exc (truediv date_count (length non_empty)) (\<lambda>q.
                               if float_0_8 < q then Inr ''date'' else Inr ''text''))))"

section \<open>\<open>CSVSorter.sort_value\<close>\<close>

definition sort_value ::
  "(string \<Rightarrow> pyfloat option) \<Rightarrow> (string \<Rightarrow> pyexc + pydatetime) \<Rightarrow> string \<Rightarrow> string \<Rightarrow> pyexc + pyvalue" where
  "sort_value float parse value field_type =
     (if value = [] \<or> strip value = []
      then (if field_type = ''text'' then Inr (Str []) else Inr (Float NegInf))
      else let value = strip value
           in if field_type = ''number''
              then (case float (replace_comma value) of
                      Some x \<Rightarrow> Inr (Float x)
                    | None \<Rightarrow> Inr (Float NegInf))
              else if field_type = ''date''
              then (case parse value of
                      Inr d \<Rightarrow> Inr (Date d)
                    | Inl e \<Rightarrow> if e = ValueError \<or> e = TypeError
                               then Inr (Date datetime_min) else Inl e)
              else Inr (Str (lower value)))"

section \<open>\<open>CSVSorter.sort_csv_file\<close>\<close>

text \<open>
  The loop that fills \<open>field_types\<close>, a dictionary from field names to types: a field
  of type \<open>auto\<close> takes the type detected on its column in the first 100 data rows.
\<close>

fun resolve_field_types ::
  "(string \<Rightarrow> pyfloat option) \<Rightarrow> (string \<Rightarrow> pyexc + pydatetime) \<Rightarrow> string list \<Rightarrow> string list list
     \<Rightarrow> field_config list \<Rightarrow> (string \<rightharpoonup> string) \<Rightarrow> pyexc + (string \<rightharpoonup> string)" where
  "resolve_field_types float parse header data_rows [] field_types = Inr field_types"
| "resolve_field_types float parse header data_rows (field_config # rest) field_types =
     (if ftype field_config = ''auto'' then
        bind_exc (index header (name field_config)) (\<lambda>column_index.
        bind_exc (mapM (\<lambda>row. getitem row column_index) (take 100 data_rows)) (\<lambda>sample_values.
        bind_exc (detect_field_type float parse sample_values) (\<lambda>t.
          resolve_field_types float parse header data_rows rest
            (field_types(name field_config \<mapsto> t)))))
      else resolve_field_types float parse header data_rows rest
             (field_types(name field_config \<mapsto> ftype field_config)))"

text \<open>The loop of \<open>sort_key\<close> over \<open>self.common_sort_fields\<close>, and \<open>sort_key\<close> itself.\<close>

fun key_values ::
  "(string \<Rightarrow> pyfloat option) \<Rightarrow> (string \<Rightarrow> pyexc + pydatetime) \<Rightarrow> string list
     \<Rightarrow> (string \<rightharpoonup> string) \<Rightarrow> string list \<Rightarrow> field_config list \<Rightarrow> pyexc + pyvalue list" where
  "key_values float parse header field_types row [] = Inr []"
| "key_values float parse header field_types row (field_config # rest) =
     bind_exc (index header (name field_config)) (\<lambda>column_index.
       let value = (if column_index < length row then row ! column_index else [])
       in case field_types (name field_config) of
            None \<Rightarrow> Inl KeyError
          | Some t \<Rightarrow>
              bind_exc (sort_value float parse value t) (\<lambda>v.
              bind_exc (key_values float parse header field_types row rest) (\<lambda>vs.
                Inr (v # vs))))"

definition sort_key ::
  "(string \<Rightarrow> pyfloat option) \<Rightarrow> (string \<Rightarrow> pyexc + pydatetime) \<Rightarrow> field_config list \<Rightarrow> string list
     \<Rightarrow> (string \<rightharpoonup> string) \<Rightarrow> string list \<Rightarrow> pyexc + pyvalue list" where
  "sort_key float parse common_sort_fields header field_types row =
     key_values float parse header field_types row common_sort_fields"

text \<open>Lines 394 to 430: from the header and the data rows to \<open>sorted_data\<close>.\<close>

definition sorted_data ::
  "(string \<Rightarrow> pyfloat option) \<Rightarrow> (string \<Rightarrow> pyexc + pydatetime) \<Rightarrow> field_config list \<Rightarrow> sort_config
     \<Rightarrow> string list \<Rightarrow> string list list \<Rightarrow> pyexc + string list list" where
  "sorted_data float parse common_sort_fields sort_config header data_rows =
     bind_exc (resolve_field_types float parse header data_rows common_sort_fields Map.empty)
       (\<lambda>field_types.
          let reverse = (order sort_config = ''desc'')
          in sorted_py tuple_lt (sort_key float parse common_sort_fields header field_types)
               reverse data_rows)"

text \<open>What is written to the output file: the header line, then one line for each row.\<close>

definition write_csv :: "string \<Rightarrow> string list \<Rightarrow> string list list \<Rightarrow> string" where
  "write_csv d header rows =
     join d header @ [CHR 0x0A] @ concat (map (\<lambda>row. join d row @ [CHR 0x0A]) rows)"

text \<open>
  The result is the exception that leaves the function, or the text of the output file,
  or \<open>None\<close> when the input file is empty and no output is written. Writing the output
  file is assumed to succeed.
\<close>

definition sort_csv_file ::
  "(string \<Rightarrow> pyfloat option) \<Rightarrow> (string \<Rightarrow> pyexc + pydatetime) \<Rightarrow> field_config list
     \<Rightarrow> pyfile \<Rightarrow> sort_config \<Rightarrow> pyexc + string option" where
  "sort_csv_file float parse common_sort_fields input_file sort_config =
     bind_exc (read_rows input_file) (\<lambda>rows.
       case rows of
         [] \<Rightarrow> Inr None
       | header # data_rows \<Rightarrow>
           bind_exc (sorted_data float parse common_sort_fields sort_config header data_rows)
             (\<lambda>sorted. Inr (Some (write_csv (delimiter sort_config) header sorted))))"

section \<open>\<open>CSVSorter.process_files\<close> and \<open>main\<close>\<close>

text \<open>
  \<open>process_files\<close> returns the files it has written to the output directory, in order:
  the name of each and its text. An exception of \<open>sort_csv_file\<close> is logged and the
  loop goes on.
\<close>

fun process_loop ::
  "(string \<Rightarrow> pyfloat option) \<Rightarrow> (string \<Rightarrow> pyexc + pydatetime) \<Rightarrow> field_config list
     \<Rightarrow> sort_config \<Rightarrow> (string \<Rightarrow> pyfile) \<Rightarrow> string list \<Rightarrow> (string \<times> string) list" where
  "process_loop float parse common_sort_fields sort_config input_dir [] = []"
| "process_loop float parse common_sort_fields sort_config input_dir (filename # rest) =
     (if \<not> exists (input_dir filename)
      then process_loop float parse common_sort_fields sort_config input_dir rest
      else case sort_csv_file float parse common_sort_fields (input_dir filename) sort_config of
             Inr (Some text) \<Rightarrow>
               (filename @ ''_SORT.csv'', text)
                 # process_loop float parse common_sort_fields sort_config input_dir rest
           | Inr None \<Rightarrow> process_loop float parse common_sort_fields sort_config input_dir rest
           | Inl e \<Rightarrow> process_loop float parse common_sort_fields sort_config input_dir rest)"

definition process_files ::
  "(string \<Rightarrow> pyfloat option) \<Rightarrow> (string \<Rightarrow> pyexc + pydatetime) \<Rightarrow> field_config list
     \<Rightarrow> config \<Rightarrow> (string \<Rightarrow> pyfile) \<Rightarrow> (string \<times> string) list" where
  "process_files float parse common_sort_fields cfg input_dir =
     (if common_sort_fields = [] then []
      else process_loop float parse common_sort_fields (sort_cfg cfg) input_dir (input_files cfg))"

text \<open>
  \<open>main\<close>: the constructor computes \<open>self.common_sort_fields\<close> with
  \<open>get_common_sort_fields\<close>, then \<open>process_files\<close> runs.
\<close>

definition main ::
  "(string \<Rightarrow> pyfloat option) \<Rightarrow> (string \<Rightarrow> pyexc + pydatetime) \<Rightarrow> config \<Rightarrow> (string \<Rightarrow> pyfile)
     \<Rightarrow> pyexc + (string \<times> string) list" where
  "main float parse cfg input_dir =
     bind_exc (snd (get_common_sort_fields cfg input_dir)) (\<lambda>common_sort_fields.
       Inr (process_files float parse common_sort_fields cfg input_dir))"

section \<open>Notions used to state the properties\<close>

text \<open>
  The set of column names a file contributes to \<open>file_headers\<close>: its header as a set,
  or the empty set when the file is missing or its header cannot be read.
\<close>

definition header_set :: "pyfile \<Rightarrow> string set" where
  "header_set f = (case read_header f of Inr header \<Rightarrow> set header | Inl e \<Rightarrow> {})"

text \<open>A file has a readable header.\<close>

definition readable_header :: "pyfile \<Rightarrow> bool" where
  "readable_header f = (case read_header f of Inr header \<Rightarrow> True | Inl e \<Rightarrow> False)"


text \<open>
  Rows in ascending order of their keys: no row's key is below (\<open><\<close>) the key of the row
  before it. Descending order is ascending order read backwards.
\<close>

fun ascending :: "('r \<Rightarrow> pyexc + pyvalue list) \<Rightarrow> 'r list \<Rightarrow> bool" where
  "ascending key [] = True"
| "ascending key [x] = True"
| "ascending key (x # y # ys) =
     ((case key x of
         Inl e \<Rightarrow> False
       | Inr kx \<Rightarrow> (case key y of Inl e \<Rightarrow> False | Inr ky \<Rightarrow> tuple_lt ky kx = Inr False))
      \<and> ascending key (y # ys))"

definition descending :: "('r \<Rightarrow> pyexc + pyvalue list) \<Rightarrow> 'r list \<Rightarrow> bool" where
  "descending key rows = ascending key (rev rows)"

text \<open>Invariants of the sort: every row carries its own key, and neighbours are in order.\<close>

definition keyed_ok :: "('r \<Rightarrow> pyexc + 'k) \<Rightarrow> ('k \<times> 'r) list \<Rightarrow> bool" where
  "keyed_ok key s = (\<forall>p \<in> set s. key (snd p) = Inr (fst p))"

fun chain :: "('k \<Rightarrow> 'k \<Rightarrow> pyexc + bool) \<Rightarrow> ('k \<times> 'r) list \<Rightarrow> bool" where
  "chain lt [] = True"
| "chain lt [x] = True"
| "chain lt (x # y # ys) = (lt (fst y) (fst x) = Inr False \<and> chain lt (y # ys))"

text \<open>Two field specs with the same name and type; their \<open>order\<close> may differ.\<close>

definition same_name_type :: "field_config \<Rightarrow> field_config \<Rightarrow> bool" where
  "same_name_type a b = (name a = name b \<and> ftype a = ftype b)"

text \<open>
  The samples the type detector counts over, and the number of them that parse as
  floats (lines 285 to 298).
\<close>

definition non_empty :: "string list \<Rightarrow> string list" where
  "non_empty sample_values = map strip (filter (\<lambda>v. strip v \<noteq> []) sample_values)"

definition number_count :: "(string \<Rightarrow> pyfloat option) \<Rightarrow> string list \<Rightarrow> nat" where
  "number_count float sample_values =
     length (filter (\<lambda>v. float (replace_comma v) \<noteq> None) (non_empty sample_values))"

text \<open>A configuration with two files and one sort field, and an input directory for it.\<close>

definition example_config :: "string \<Rightarrow> string \<Rightarrow> string \<Rightarrow> config" where
  "example_config t per_field overall =
     \<lparr>input_files = [''f1'', ''f2''],
      sort_cfg = \<lparr>delimiter = '';'',
                  sort_fields = [\<lparr>name = ''K'', ftype = t, forder = per_field\<rparr>],
                  order = overall\<rparr>\<rparr>"

definition example_dir :: "string \<Rightarrow> pyfile" where
  "example_dir f =
     (if f = ''f1'' then Csv [[''K'', ''V''], [''1'', ''a''], [''3'', ''b''], [''2'', ''c'']]
      else Csv [[''K''], [''5''], [''4'']])"

text \<open>
  Instances of the two library parameters, for the runs on concrete inputs below. On a
  string of decimal digits \<open>float_of_digits\<close> returns what Python's \<open>float\<close> returns (the
  numbers used are small enough to be doubles), and it raises \<open>ValueError\<close> on the other
  strings of these runs, as \<open>float\<close> does. \<open>parse_one_date\<close> knows the one date of these
  runs, as the naive datetime \<open>dateutil\<close> returns for it, and raises \<open>ValueError\<close>
  otherwise.
\<close>

definition is_digit :: "char \<Rightarrow> bool" where
  "is_digit c = (48 \<le> (of_char c :: nat) \<and> (of_char c :: nat) \<le> 57)"

definition float_of_digits :: "string \<Rightarrow> pyfloat option" where
  "float_of_digits s =
     (if s \<noteq> [] \<and> list_all is_digit s
      then Some (Fin (of_nat (foldl (\<lambda>n c. 10 * n + (of_char c - 48)) 0 s)))
      else None)"

definition parse_one_date :: "string \<Rightarrow> pyexc + pydatetime" where
  "parse_one_date s =
     (if s = ''2024-01-15'' then Inr (Naive 63840873600000000) else Inl ValueError)"

section \<open>Lemmas: sequencing and sorting\<close>

lemma bind_exc_Inr_iff: "bind_exc m f = Inr y \<longleftrightarrow> (\<exists>x. m = Inr x \<and> f x = Inr y)"
  by (cases m) auto

lemma mapM_all_Inr:
  "(\<forall>x \<in> set xs. \<exists>y. f x = Inr y) \<Longrightarrow> mapM f xs = Inr (map (\<lambda>x. projr (f x)) xs)"
  by (induction xs) auto

lemma mapM_Inr_D:
  "mapM f xs = Inr ys \<Longrightarrow> (\<forall>x \<in> set xs. \<exists>y. f x = Inr y) \<and> ys = map (\<lambda>x. projr (f x)) xs"
  by (induction xs arbitrary: ys) (auto split: sum.splits)

lemma mapM_Inr_iff:
  "mapM f xs = Inr ys \<longleftrightarrow> (\<forall>x \<in> set xs. \<exists>y. f x = Inr y) \<and> ys = map (\<lambda>x. projr (f x)) xs"
  using mapM_all_Inr mapM_Inr_D by metis


lemma insert_by_mset: "insert_by lt x ys = Inr zs \<Longrightarrow> mset zs = add_mset x (mset ys)"
  by (induction ys arbitrary: zs) (auto split: sum.splits bool.splits)

lemma stable_sort_mset: "stable_sort lt xs = Inr ys \<Longrightarrow> mset ys = mset xs"
  by (induction xs arbitrary: ys) (auto split: sum.splits dest: insert_by_mset)



lemma stable_sort_set: "stable_sort lt xs = Inr ys \<Longrightarrow> set ys = set xs"
  by (metis stable_sort_mset set_mset_mset)


section \<open>Lemmas: comparison of keys\<close>

lemma str_lt_irrefl: "\<not> str_lt a a"
  by (induction a) auto

lemma str_lt_asym: "str_lt a b \<Longrightarrow> \<not> str_lt b a"
  by (induction a b rule: str_lt.induct) (auto split: if_splits)

lemma float_eq_sym: "float_eq a b = float_eq b a"
  by (cases a; cases b) auto


lemma float_eq_not_lt: "float_eq a b \<Longrightarrow> \<not> float_lt a b"
  by (cases a; cases b) auto

lemma float_lt_asym: "float_lt a b \<Longrightarrow> \<not> float_lt b a"
  by (cases a; cases b) auto

lemma py_eq_sym: "py_eq a b = py_eq b a"
  by (induction a b rule: py_eq.induct) (auto simp: float_eq_sym)

lemma py_eq_Date: "py_eq (Date x) (Date y) = (case (x, y) of (Naive a, Naive b) \<Rightarrow> a = b | (Aware a, Aware b) \<Rightarrow> a = b | _ \<Rightarrow> False)"
  by (cases x; cases y) auto

lemma py_lt_Date: "py_lt (Date x) (Date y) = (case (x, y) of (Naive a, Naive b) \<Rightarrow> Inr (a < b) | (Aware a, Aware b) \<Rightarrow> Inr (a < b) | _ \<Rightarrow> Inl TypeError)"
  by (cases x; cases y) auto


lemma py_eq_not_lt: "py_eq a b \<Longrightarrow> py_lt a b = Inr False"
  by (cases a; cases b) (auto simp: py_eq_Date py_lt_Date str_lt_irrefl float_eq_not_lt split: pydatetime.splits)

lemma py_lt_asym: "py_lt a b = Inr True \<Longrightarrow> py_lt b a = Inr False"
  by (cases a; cases b) (auto simp: py_lt_Date str_lt_asym float_lt_asym split: pydatetime.splits)




lemma tuple_lt_asym: "tuple_lt a b = Inr True \<Longrightarrow> tuple_lt b a = Inr False"
  by (induction a b rule: tuple_lt.induct) (auto simp: py_eq_sym py_lt_asym split: if_splits)


lemma insert_by_hd:
  "insert_by lt x ys = Inr zs \<Longrightarrow> zs \<noteq> [] \<and> (hd zs = x \<or> (ys \<noteq> [] \<and> hd zs = hd ys))"
  by (cases ys) (auto split: sum.splits bool.splits)

lemma insert_by_chain:
  assumes asym: "\<And>a b. lt a b = Inr True \<Longrightarrow> lt b a = Inr False"
  shows "chain lt ys \<Longrightarrow> insert_by lt x ys = Inr zs \<Longrightarrow> chain lt zs"
proof (induction ys arbitrary: zs)
  case Nil
  then show ?case by auto
next
  case (Cons y ys)
  show ?case
  proof (cases "lt (fst y) (fst x)")
    case (Inl e)
    with Cons.prems show ?thesis by simp
  next
    case (Inr b)
    show ?thesis
    proof (cases b)
      case False
      with Inr Cons.prems show ?thesis by auto
    next
      case True
      with Inr Cons.prems(2) obtain zs' where z: "insert_by lt x ys = Inr zs'" "zs = y # zs'"
        by (auto split: sum.splits)
      have c: "chain lt ys" using Cons.prems(1) by (cases ys) auto
      have ih: "chain lt zs'" by (rule Cons.IH[OF c z(1)])
      from insert_by_hd[OF z(1)] obtain z' zs'' where zs': "zs' = z' # zs''"
        and hd: "z' = x \<or> (ys \<noteq> [] \<and> z' = hd ys)"
        by (cases zs') auto
      have "lt (fst z') (fst y) = Inr False"
        using hd
      proof
        assume "z' = x"
        then show ?thesis using asym Inr True by simp
      next
        assume "ys \<noteq> [] \<and> z' = hd ys"
        then show ?thesis using Cons.prems(1) by (cases ys) auto
      qed
      then show ?thesis using ih z(2) zs' by simp
    qed
  qed
qed

lemma stable_sort_chain:
  assumes asym: "\<And>a b. lt a b = Inr True \<Longrightarrow> lt b a = Inr False"
  shows "stable_sort lt xs = Inr ys \<Longrightarrow> chain lt ys"
proof (induction xs arbitrary: ys)
  case Nil
  then show ?case by simp
next
  case (Cons x xs)
  from Cons.prems obtain ys' where s: "stable_sort lt xs = Inr ys'" and i: "insert_by lt x ys' = Inr ys"
    by (auto split: sum.splits)
  show ?case by (rule insert_by_chain[OF asym Cons.IH[OF s] i])
qed

lemma keyed_ok_zip:
  "mapM key rows = Inr keys \<Longrightarrow> keyed_ok key (zip keys rows)"
  unfolding keyed_ok_def
  by (auto simp: mapM_Inr_iff set_zip) (metis nth_mem sum.sel(2))


lemma keyed_ok_cong: "set s = set t \<Longrightarrow> keyed_ok key s = keyed_ok key t"
  by (simp add: keyed_ok_def)

lemma sorted_py_D:
  assumes "sorted_py lt key reverse rows = Inr out"
  obtains keys s where "mapM key rows = Inr keys"
    and "stable_sort lt (if reverse then rev (zip keys rows) else zip keys rows) = Inr s"
    and "out = map snd (if reverse then rev s else s)"
    and "keyed_ok key s"
proof -
  from assms obtain keys s where k: "mapM key rows = Inr keys"
    and s: "stable_sort lt (if reverse then rev (zip keys rows) else zip keys rows) = Inr s"
    and out: "out = map snd (if reverse then rev s else s)"
    by (auto simp: sorted_py_def Let_def split: sum.splits)
  have "set s = set (zip keys rows)" using stable_sort_set[OF s] by (simp split: if_splits)
  then have "keyed_ok key s" using keyed_ok_zip[OF k] keyed_ok_cong by blast
  with k s out show ?thesis using that by blast
qed



section \<open>Lemmas: the header loop\<close>

lemma read_header_Missing: "\<not> exists f \<Longrightarrow> read_header f = Inl FileNotFoundError"
  by (simp add: exists_def)

lemma collect_headers_fold:
  "snd (collect_headers input_dir files d)
     = fold (\<lambda>f d. dict_set f (header_set (input_dir f)) d) files d"
proof (induction files arbitrary: d)
  case Nil
  then show ?case by simp
next
  case (Cons a files)
  show ?case
    by (cases "exists (input_dir a)"; cases "read_header (input_dir a)")
       (simp_all add: case_prod_beta Cons.IH header_set_def read_header_Missing)
qed

lemma dict_set_map_fst:
  "map fst (dict_set k v d) = (if k \<in> set (map fst d) then map fst d else map fst d @ [k])"
proof (induction d)
  case Nil
  then show ?case by simp
next
  case (Cons p d)
  obtain k' v' where p: "p = (k', v')" by (cases p)
  show ?case using Cons unfolding p by (cases "k' = k") (simp_all split: if_splits)
qed

lemma dict_set_keys: "set (map fst (dict_set k v d)) = insert k (set (map fst d))"
  unfolding dict_set_map_fst by auto

lemma dict_set_distinct: "distinct (map fst d) \<Longrightarrow> distinct (map fst (dict_set k v d))"
  unfolding dict_set_map_fst by auto

lemma dict_set_subset: "set (dict_set k v d) \<subseteq> insert (k, v) (set d)"
proof (induction d)
  case Nil
  then show ?case by simp
next
  case (Cons p d)
  obtain k' v' where p: "p = (k', v')" by (cases p)
  show ?case using Cons unfolding p by (cases "k' = k") auto
qed

lemma dict_set_values:
  "\<forall>p \<in> set d. snd p = h (fst p) \<Longrightarrow> \<forall>p \<in> set (dict_set k (h k) d). snd p = h (fst p)"
  using dict_set_subset[of k "h k" d] by auto

lemma fold_dict_set:
  "distinct (map fst d) \<Longrightarrow> \<forall>p \<in> set d. snd p = h (fst p) \<Longrightarrow>
   distinct (map fst (fold (\<lambda>f d. dict_set f (h f) d) files d))
   \<and> set (map fst (fold (\<lambda>f d. dict_set f (h f) d) files d)) = set files \<union> set (map fst d)
   \<and> (\<forall>p \<in> set (fold (\<lambda>f d. dict_set f (h f) d) files d). snd p = h (fst p))"
proof (induction files arbitrary: d)
  case Nil
  then show ?case by simp
next
  case (Cons f files)
  have 1: "distinct (map fst (dict_set f (h f) d))" using Cons.prems(1) by (rule dict_set_distinct)
  have 2: "\<forall>p \<in> set (dict_set f (h f) d). snd p = h (fst p)" using Cons.prems(2) by (rule dict_set_values)
  from Cons.IH[OF 1 2] show ?case unfolding dict_set_keys by auto
qed

lemma file_headers_props:
  fixes input_dir files
  defines "d \<equiv> snd (collect_headers input_dir files [])"
  shows "length d = card (set files)"
    and "set (map snd d) = (\<lambda>f. header_set (input_dir f)) ` set files"
proof -
  have p: "distinct (map fst d)" "set (map fst d) = set files"
    "\<forall>p \<in> set d. snd p = header_set (input_dir (fst p))"
    using fold_dict_set[of "[]" "\<lambda>f. header_set (input_dir f)" files]
    unfolding d_def collect_headers_fold by auto
  show "length d = card (set files)" using distinct_card[OF p(1)] p(2) by simp
  have p2: "fst ` set d = set files" using p(2) by simp
  have "set (map snd d) = (\<lambda>p. header_set (input_dir (fst p))) ` set d"
    using p(3) by (auto simp: image_iff)
  also have "\<dots> = (\<lambda>f. header_set (input_dir f)) ` (fst ` set d)" by (simp add: image_image)
  finally show "set (map snd d) = (\<lambda>f. header_set (input_dir f)) ` set files" using p2 by simp
qed

lemma fold_inter: "fold (\<lambda>t acc. acc \<inter> t) ss s = s \<inter> \<Inter> (set ss)"
  by (induction ss arbitrary: s) auto

lemma set_intersection_Inr: "ss \<noteq> [] \<Longrightarrow> set_intersection ss = Inr (\<Inter> (set ss))"
  by (cases ss) (auto simp: fold_inter)

lemma filter_fields_snd: "snd (filter_fields common fs) = filter (\<lambda>f. name f \<in> common) fs"
  by (induction fs) (auto split: prod.splits)

lemma get_common_sort_fields_many:
  assumes "2 \<le> card (set (input_files cfg))"
  shows "snd (get_common_sort_fields cfg input_dir)
       = Inr (filter (\<lambda>f. name f \<in> (\<Inter>file \<in> set (input_files cfg). header_set (input_dir file)))
                (sort_fields (sort_cfg cfg)))"
proof -
  obtain l1 d where c: "collect_headers input_dir (input_files cfg) [] = (l1, d)"
    by (cases "collect_headers input_dir (input_files cfg) []")
  then have d: "d = snd (collect_headers input_dir (input_files cfg) [])" by simp
  have len: "length d = card (set (input_files cfg))" unfolding d by (rule file_headers_props(1))
  have vals: "set (map snd d) = (\<lambda>f. header_set (input_dir f)) ` set (input_files cfg)"
    unfolding d by (rule file_headers_props(2))
  have ne: "map snd d \<noteq> []" using len assms by auto
  have i: "set_intersection (map snd d) = Inr (\<Inter>file \<in> set (input_files cfg). header_set (input_dir file))"
    using set_intersection_Inr[OF ne] vals by simp
  obtain l2 cs where f: "filter_fields (\<Inter>file \<in> set (input_files cfg). header_set (input_dir file))
       (sort_fields (sort_cfg cfg)) = (l2, cs)"
    by (cases "filter_fields (\<Inter>file \<in> set (input_files cfg). header_set (input_dir file)) (sort_fields (sort_cfg cfg))")
  then have cs: "cs = filter (\<lambda>f. name f \<in> (\<Inter>file \<in> set (input_files cfg). header_set (input_dir file)))
      (sort_fields (sort_cfg cfg))"
    using filter_fields_snd[of "\<Inter>file \<in> set (input_files cfg). header_set (input_dir file)" "sort_fields (sort_cfg cfg)"] by simp
  show ?thesis
    unfolding get_common_sort_fields_def c using len assms i f cs by (simp add: Let_def)
qed

lemma get_common_sort_fields_few:
  assumes "card (set (input_files cfg)) < 2"
  shows "get_common_sort_fields cfg input_dir
       = (fst (collect_headers input_dir (input_files cfg) []) @ [(WARNING, Not_enough_files)],
          Inr (sort_fields (sort_cfg cfg)))"
proof -
  obtain l1 d where c: "collect_headers input_dir (input_files cfg) [] = (l1, d)"
    by (cases "collect_headers input_dir (input_files cfg) []")
  then have d: "d = snd (collect_headers input_dir (input_files cfg) [])" by simp
  have len: "length d = card (set (input_files cfg))" unfolding d by (rule file_headers_props(1))
  show ?thesis unfolding get_common_sort_fields_def c using len assms by simp
qed

section \<open>Lemmas: the file sorter\<close>

lemma read_rows_Inr: "read_rows f = Inr rows \<longleftrightarrow> f = Csv rows"
  by (cases f) auto

lemma sort_csv_file_Some_D:
  assumes "sort_csv_file float parse common input_file sc = Inr (Some text)"
  obtains header data_rows field_types sorted where
    "input_file = Csv (header # data_rows)"
    "resolve_field_types float parse header data_rows common Map.empty = Inr field_types"
    "sorted_py tuple_lt (sort_key float parse common header field_types) (order sc = ''desc'') data_rows
       = Inr sorted"
    "text = write_csv (delimiter sc) header sorted"
proof -
  from assms obtain rows where r: "read_rows input_file = Inr rows"
    and c: "(case rows of [] \<Rightarrow> Inr None
             | header # data_rows \<Rightarrow>
                bind_exc (sorted_data float parse common sc header data_rows)
                  (\<lambda>sorted. Inr (Some (write_csv (delimiter sc) header sorted)))) = Inr (Some text)"
    by (auto simp: sort_csv_file_def bind_exc_Inr_iff)
  from c obtain header data_rows where rows: "rows = header # data_rows" by (cases rows) auto
  from c rows obtain sorted where s: "sorted_data float parse common sc header data_rows = Inr sorted"
    and t: "text = write_csv (delimiter sc) header sorted"
    by (auto simp: bind_exc_Inr_iff)
  from s obtain field_types where
    ft: "resolve_field_types float parse header data_rows common Map.empty = Inr field_types"
    and sp: "sorted_py tuple_lt (sort_key float parse common header field_types) (order sc = ''desc'') data_rows
       = Inr sorted"
    by (auto simp: sorted_data_def bind_exc_Inr_iff Let_def)
  from r have "input_file = Csv (header # data_rows)" by (simp add: read_rows_Inr rows)
  then show ?thesis using ft sp t that by blast
qed

lemma chain_ascending:
  "keyed_ok key s \<Longrightarrow> chain tuple_lt s \<Longrightarrow> ascending key (map snd s)"
  by (induction tuple_lt s rule: chain.induct) (auto simp: keyed_ok_def)

lemma sorted_py_direction:
  assumes "sorted_py tuple_lt key reverse rows = Inr out"
  shows "if reverse then descending key out else ascending key out"
proof -
  from assms obtain keys s where
    s: "stable_sort tuple_lt (if reverse then rev (zip keys rows) else zip keys rows) = Inr s"
    and out: "out = map snd (if reverse then rev s else s)"
    and ok: "keyed_ok key s"
    by (rule sorted_py_D)
  have "chain tuple_lt s" using tuple_lt_asym s by (rule stable_sort_chain)
  then have "ascending key (map snd s)" using ok chain_ascending by blast
  then show ?thesis unfolding out by (simp add: descending_def rev_map)
qed

lemma resolve_field_types_cong:
  "list_all2 same_name_type fs' fs \<Longrightarrow>
   resolve_field_types float parse header data_rows fs' ft
     = resolve_field_types float parse header data_rows fs ft"
proof (induction fs' fs arbitrary: ft rule: list_all2_induct)
  case Nil
  then show ?case by simp
next
  case (Cons a fs' b fs)
  then show ?case by (simp add: same_name_type_def fun_upd_def)
qed

lemma key_values_cong:
  "list_all2 same_name_type fs' fs \<Longrightarrow>
   key_values float parse header ft row fs' = key_values float parse header ft row fs"
proof (induction fs' fs rule: list_all2_induct)
  case Nil
  then show ?case by simp
next
  case (Cons a fs' b fs)
  then show ?case by (simp add: same_name_type_def cong: option.case_cong)
qed

lemma sort_csv_file_cong:
  assumes "list_all2 same_name_type fs' fs" "delimiter sc' = delimiter sc" "order sc' = order sc"
  shows "sort_csv_file float parse fs' input_file sc' = sort_csv_file float parse fs input_file sc"
proof -
  have k: "sort_key float parse fs' header ft = sort_key float parse fs header ft" for header ft
    using key_values_cong[OF assms(1)] by (auto simp: sort_key_def)
  have "sorted_data float parse fs' sc' header rows = sorted_data float parse fs sc header rows"
    for header rows
    unfolding sorted_data_def resolve_field_types_cong[OF assms(1)] k assms(3) ..
  then show ?thesis unfolding sort_csv_file_def assms(2) by simp
qed

lemma process_loop_cong:
  assumes "list_all2 same_name_type fs' fs" "delimiter sc' = delimiter sc" "order sc' = order sc"
  shows "process_loop float parse fs' sc' input_dir files = process_loop float parse fs sc input_dir files"
  by (induction files)
     (simp_all add: sort_csv_file_cong[OF assms] cong: sum.case_cong option.case_cong)

lemma filter_same_name_type:
  "list_all2 same_name_type fs' fs \<Longrightarrow>
   list_all2 same_name_type (filter (\<lambda>f. name f \<in> S) fs') (filter (\<lambda>f. name f \<in> S) fs)"
  by (induction fs' fs rule: list_all2_induct) (auto simp: same_name_type_def)

lemma get_common_sort_fields_cong:
  assumes "input_files cfg' = input_files cfg"
    and "list_all2 same_name_type (sort_fields (sort_cfg cfg')) (sort_fields (sort_cfg cfg))"
  shows "\<exists>fs' fs. snd (get_common_sort_fields cfg' input_dir) = Inr fs'
           \<and> snd (get_common_sort_fields cfg input_dir) = Inr fs
           \<and> list_all2 same_name_type fs' fs"
proof (cases "card (set (input_files cfg)) < 2")
  case True
  then show ?thesis
    using get_common_sort_fields_few[of cfg input_dir] get_common_sort_fields_few[of cfg' input_dir] assms
    by simp
next
  case False
  then have c: "2 \<le> card (set (input_files cfg))" by simp
  then have c': "2 \<le> card (set (input_files cfg'))" by (simp add: assms(1))
  let ?S = "\<Inter>file \<in> set (input_files cfg). header_set (input_dir file)"
  have a: "snd (get_common_sort_fields cfg input_dir)
         = Inr (filter (\<lambda>f. name f \<in> ?S) (sort_fields (sort_cfg cfg)))"
    using c by (rule get_common_sort_fields_many)
  have b: "snd (get_common_sort_fields cfg' input_dir)
         = Inr (filter (\<lambda>f. name f \<in> ?S) (sort_fields (sort_cfg cfg')))"
    using get_common_sort_fields_many[OF c', of input_dir] unfolding assms(1) .
  have "list_all2 same_name_type (filter (\<lambda>f. name f \<in> ?S) (sort_fields (sort_cfg cfg')))
          (filter (\<lambda>f. name f \<in> ?S) (sort_fields (sort_cfg cfg)))"
    using assms(2) by (rule filter_same_name_type)
  with a b show ?thesis by blast
qed


lemma count_dates_Inr_iff:
  "count_dates parse vs = Inr n \<longleftrightarrow>
     (\<forall>v \<in> set vs. \<forall>e. parse v = Inl e \<longrightarrow> e = ValueError \<or> e = TypeError)
     \<and> n = length (filter (\<lambda>v. \<exists>d. parse v = Inr d) vs)"
proof (induction vs arbitrary: n)
  case Nil
  then show ?case by auto
next
  case (Cons v vs)
  show ?case
  proof (cases "parse v")
    case (Inl e)
    then show ?thesis using Cons.IH[of n] by auto
  next
    case (Inr d)
    show ?thesis
    proof (cases n)
      case 0
      then show ?thesis using Inr by (auto simp: bind_exc_Inr_iff)
    next
      case (Suc m)
      then show ?thesis using Inr Cons.IH[of m] by (auto simp: bind_exc_Inr_iff)
    qed
  qed
qed





section \<open>Lemmas: division of integers as doubles\<close>

lemma rhe_le: "x \<le> of_int n \<Longrightarrow> round_half_even x \<le> n"
proof -
  assume a: "x \<le> of_int n"
  have f: "of_int \<lfloor>x\<rfloor> \<le> x" "x < of_int \<lfloor>x\<rfloor> + 1" by linarith+
  have fn: "\<lfloor>x\<rfloor> \<le> n" using a by (simp add: floor_le_iff)
  show ?thesis
  proof (cases "\<lfloor>x\<rfloor> = n")
    case True
    then have "x = of_int n" using a f by linarith
    then show ?thesis by (simp add: round_half_even_def)
  next
    case False
    then have "\<lfloor>x\<rfloor> + 1 \<le> n" using fn by linarith
    then show ?thesis using fn by (auto simp: round_half_even_def Let_def)
  qed
qed

lemma rhe_gt: "of_int n + 1 / 2 < x \<Longrightarrow> n < round_half_even x"
proof -
  assume a: "of_int n + 1 / 2 < x"
  have f: "of_int \<lfloor>x\<rfloor> \<le> x" "x < of_int \<lfloor>x\<rfloor> + 1" by linarith+
  have fn: "n \<le> \<lfloor>x\<rfloor>" using a by (simp add: le_floor_iff)
  show ?thesis
  proof (cases "\<lfloor>x\<rfloor> = n")
    case True
    then have "1 / 2 < x - of_int \<lfloor>x\<rfloor>" using a by simp
    then show ?thesis using True by (auto simp: round_half_even_def Let_def)
  next
    case False
    then have "n < \<lfloor>x\<rfloor>" using fn by linarith
    then show ?thesis by (auto simp: round_half_even_def Let_def)
  qed
qed

lemma rhe_ge: "of_int n \<le> x \<Longrightarrow> n \<le> round_half_even x"
proof -
  assume a: "of_int n \<le> x"
  have fn: "n \<le> \<lfloor>x\<rfloor>" using a by (simp add: le_floor_iff)
  then show ?thesis by (auto simp: round_half_even_def Let_def)
qed

lemma bitlen_nat:
  assumes "0 < a"
  shows "1 \<le> bitlen (int a)" "2 ^ nat (bitlen (int a) - 1) \<le> a" "a < 2 ^ nat (bitlen (int a))"
proof -
  have p: "0 < int a" using assms by simp
  from bitlen_bounds[OF p] have b: "2 ^ nat (bitlen (int a) - 1) \<le> int a" "int a < 2 ^ nat (bitlen (int a))"
    by auto
  show "1 \<le> bitlen (int a)" using p by (simp add: bitlen_alt_def)
  show "2 ^ nat (bitlen (int a) - 1) \<le> a" using b(1) by (metis of_nat_le_iff of_nat_numeral of_nat_power)
  show "a < 2 ^ nat (bitlen (int a))" using b(2) by (metis of_nat_less_iff of_nat_numeral of_nat_power)
qed

lemma bitlen_mono_nat:
  assumes "0 < a" "a < b"
  shows "bitlen (int a) \<le> bitlen (int b)"
proof (rule ccontr)
  assume "\<not> bitlen (int a) \<le> bitlen (int b)"
  then have l: "nat (bitlen (int b)) \<le> nat (bitlen (int a) - 1)" by simp
  have "b < 2 ^ nat (bitlen (int b))" using assms by (intro bitlen_nat(3)) simp
  also have "\<dots> \<le> (2::nat) ^ nat (bitlen (int a) - 1)" using l by (rule power_increasing) simp
  also have "\<dots> \<le> a" using assms(1) by (rule bitlen_nat(2))
  finally show False using assms(2) by simp
qed

lemma float_exponent_same: "0 < a \<Longrightarrow> float_exponent a a = 0"
  by (simp add: float_exponent_def)

lemma float_exponent_below:
  assumes "0 < a" "a < b"
  shows "float_exponent a b \<le> - 1"
proof -
  have "bitlen (int a) - bitlen (int b) \<le> 0" using bitlen_mono_nat[OF assms] by simp
  then show ?thesis using assms(2) by (auto simp: float_exponent_def Let_def)
qed

lemma float_exponent_half:
  assumes "0 < a" "a < b" "b \<le> 2 * a"
  shows "float_exponent a b = - 1"
proof -
  let ?p = "bitlen (int a)" and ?q = "bitlen (int b)"
  have le: "?p \<le> ?q" using bitlen_mono_nat[OF assms(1,2)] .
  have p1: "1 \<le> ?p" using assms(1) by (rule bitlen_nat(1))
  have ge: "?q \<le> ?p + 1"
  proof (rule ccontr)
    assume "\<not> ?q \<le> ?p + 1"
    then have l: "nat ?p + 1 \<le> nat (?q - 1)" using p1 by simp
    have "2 * a < 2 * 2 ^ nat ?p" using bitlen_nat(3)[OF assms(1)] by simp
    also have "\<dots> = (2::nat) ^ (nat ?p + 1)" by simp
    also have "\<dots> \<le> 2 ^ nat (?q - 1)" using l by (rule power_increasing) simp
    also have "\<dots> \<le> b" using assms by (intro bitlen_nat(2)) simp
    finally show False using assms(3) by simp
  qed
  from le ge have "?p - ?q = 0 \<or> ?p - ?q = - 1" by linarith
  then show ?thesis
  proof
    assume "?p - ?q = 0"
    then show ?thesis using assms(2) by (simp add: float_exponent_def Let_def)
  next
    assume "?p - ?q = - 1"
    then show ?thesis using assms(3) by (simp add: float_exponent_def Let_def mult.commute)
  qed
qed

lemma truediv_below:
  assumes "0 < a" "a < b"
  shows "\<exists>j. truediv a b
            = Inr (of_int (round_half_even (of_nat a * (2 ^ 53 * 2 ^ j) / of_nat b)) / (2 ^ 53 * 2 ^ j))"
proof -
  have e: "float_exponent a b \<le> - 1" using assms by (rule float_exponent_below)
  define j where "j = nat (- 1 - float_exponent a b)"
  have k: "nat (52 - float_exponent a b) = 53 + j" using e by (simp add: j_def)
  have "truediv a b = Inr (of_int (round_half_even (of_nat a * 2 ^ (53 + j) / of_nat b)) / 2 ^ (53 + j))"
    using assms e by (simp add: truediv_def Let_def k)
  then show ?thesis by (auto simp: power_add)
qed

lemma truediv_half:
  assumes "0 < a" "a < b" "b \<le> 2 * a"
  shows "truediv a b = Inr (of_int (round_half_even (of_nat a * 2 ^ 53 / of_nat b)) / 2 ^ 53)"
proof -
  have e: "float_exponent a b = - 1" using assms by (rule float_exponent_half)
  show ?thesis using assms by (simp add: truediv_def Let_def e)
qed

lemma truediv_same: "0 < a \<Longrightarrow> truediv a a = Inr 1"
  by (simp add: truediv_def float_exponent_same round_half_even_def)

lemma truediv_not_above:
  assumes "0 < b" "5 * a \<le> 4 * b"
  shows "\<exists>q. truediv a b = Inr q \<and> \<not> float_0_8 < q"
proof (cases "a = 0")
  case True
  then show ?thesis using assms by (simp add: truediv_def float_0_8_def)
next
  case False
  then have a: "0 < a" "a < b" using assms by auto
  from truediv_below[OF a] obtain j where
    t: "truediv a b = Inr (of_int (round_half_even (of_nat a * (2 ^ 53 * 2 ^ j) / of_nat b)) / (2 ^ 53 * 2 ^ j))"
    by blast
  let ?A = "of_nat a :: rat" and ?B = "of_nat b :: rat"
  have B: "0 < ?B" using assms(1) by simp
  have "5 * ?A \<le> 4 * ?B" using assms(2) by (metis of_nat_le_iff of_nat_mult of_nat_numeral)
  then have "?A * 2 ^ 53 \<le> 7205759403792794 * ?B" using B by simp
  then have "?A * 2 ^ 53 * 2 ^ j \<le> 7205759403792794 * ?B * 2 ^ j"
    by (rule mult_right_mono) simp
  then have "?A * (2 ^ 53 * 2 ^ j) / ?B \<le> 7205759403792794 * 2 ^ j"
    using B by (simp add: field_simps)
  then have "?A * (2 ^ 53 * 2 ^ j) / ?B \<le> of_int (7205759403792794 * 2 ^ j)" by simp
  then have "round_half_even (?A * (2 ^ 53 * 2 ^ j) / ?B) \<le> 7205759403792794 * 2 ^ j"
    by (rule rhe_le)
  then have "(of_int (round_half_even (?A * (2 ^ 53 * 2 ^ j) / ?B)) :: rat) \<le> of_int (7205759403792794 * 2 ^ j)"
    by (simp only: of_int_le_iff)
  then have "(of_int (round_half_even (?A * (2 ^ 53 * 2 ^ j) / ?B)) :: rat) / (2 ^ 53 * 2 ^ j)
               \<le> of_int (7205759403792794 * 2 ^ j) / (2 ^ 53 * 2 ^ j)"
    by (rule divide_right_mono) simp
  also have "(of_int (7205759403792794 * 2 ^ j) :: rat) / (2 ^ 53 * 2 ^ j) = float_0_8"
    by (simp add: float_0_8_def)
  finally show ?thesis using t by simp
qed

lemma l1a: "4 * B + 1 \<le> 5 * A \<Longrightarrow> B \<le> 1125899906842624 \<Longrightarrow> 7205759403792794 * B + B / 2 < 9007199254740992 * (A::rat)"
  by linarith

lemma l1: "4 * B + 1 \<le> 5 * A \<Longrightarrow> B \<le> 1125899906842624 \<Longrightarrow> (7205759403792794 + 1 / 2) * B < (A::rat) * 2 ^ 53"
proof -
  assume "4 * B + 1 \<le> 5 * A" "B \<le> 1125899906842624"
  then have "7205759403792794 * B + B / 2 < 9007199254740992 * A" by (rule l1a)
  moreover have "(7205759403792794 + 1 / 2) * B = 7205759403792794 * B + B / 2"
    by (simp add: distrib_right)
  moreover have "A * 2 ^ 53 = 9007199254740992 * A" by simp
  ultimately show ?thesis by (simp only:)
qed

lemma truediv_above:
  assumes "a \<le> b" "4 * b < 5 * a" "b \<le> 2 ^ 50"
  shows "\<exists>q. truediv a b = Inr q \<and> float_0_8 < q"
proof (cases "a = b")
  case True
  then have "0 < a" using assms(2) by simp
  then have "truediv a b = Inr 1" using True truediv_same by simp
  moreover have "float_0_8 < 1" by (simp add: float_0_8_def)
  ultimately show ?thesis by blast
next
  case False
  then have a: "0 < a" "a < b" "b \<le> 2 * a" using assms by auto
  let ?A = "of_nat a :: rat" and ?B = "of_nat b :: rat"
  have B: "0 < ?B" using a by simp
  have "4 * b + 1 \<le> 5 * a" using assms(2) by simp
  then have "of_nat (4 * b + 1) \<le> (of_nat (5 * a) :: rat)" by (simp only: of_nat_le_iff)
  then have 1: "4 * ?B + 1 \<le> 5 * ?A" by simp
  have "of_nat b \<le> (of_nat (2 ^ 50) :: rat)" using assms(3) by (simp only: of_nat_le_iff)
  then have 2: "?B \<le> 1125899906842624" by simp
  have "(7205759403792794 + 1 / 2) * ?B < ?A * 2 ^ 53" using 1 2 by (rule l1)
  then have "of_int 7205759403792794 + 1 / 2 < ?A * 2 ^ 53 / ?B"
    using B by (simp add: pos_less_divide_eq)
  then have "7205759403792794 < round_half_even (?A * 2 ^ 53 / ?B)" by (rule rhe_gt)
  then have "(of_int 7205759403792794 :: rat) < of_int (round_half_even (?A * 2 ^ 53 / ?B))"
    by (simp only: of_int_less_iff)
  then have "(of_int 7205759403792794 :: rat) / 2 ^ 53 < of_int (round_half_even (?A * 2 ^ 53 / ?B)) / 2 ^ 53"
    by (rule divide_strict_right_mono) simp
  moreover have "(of_int 7205759403792794 :: rat) / 2 ^ 53 = float_0_8" by (simp add: float_0_8_def)
  ultimately have "float_0_8 < of_int (round_half_even (?A * 2 ^ 53 / ?B)) / 2 ^ 53" by (simp only:)
  then show ?thesis using truediv_half[OF a] by blast
qed

lemma truediv_gt_0_8:
  assumes "0 < b" "a \<le> b" "b \<le> 2 ^ 50"
  shows "(\<exists>q. truediv a b = Inr q \<and> float_0_8 < q) \<longleftrightarrow> 4 * b < 5 * a"
proof
  assume "\<exists>q. truediv a b = Inr q \<and> float_0_8 < q"
  then obtain q where q: "truediv a b = Inr q" "float_0_8 < q" by blast
  show "4 * b < 5 * a"
  proof (rule ccontr)
    assume "\<not> 4 * b < 5 * a"
    then have "5 * a \<le> 4 * b" by simp
    from truediv_not_above[OF assms(1) this] obtain q' where "truediv a b = Inr q'" "\<not> float_0_8 < q'"
      by blast
    with q show False by simp
  qed
next
  assume "4 * b < 5 * a"
  with assms(2) show "\<exists>q. truediv a b = Inr q \<and> float_0_8 < q" using assms(3) by (rule truediv_above)
qed

lemma truediv_Inr: "0 < b \<Longrightarrow> \<exists>q. truediv a b = Inr q"
  by (simp add: truediv_def Let_def)

lemma truediv_threshold:
  assumes "0 < b" "a \<le> b" "b \<le> 2 ^ 50" "truediv a b = Inr q"
  shows "float_0_8 < q \<longleftrightarrow> 4 * b < 5 * a"
  using truediv_gt_0_8[OF assms(1-3)] assms(4) by simp

lemma count_dates_le: "count_dates parse vs = Inr n \<Longrightarrow> n \<le> length vs"
  by (simp add: count_dates_Inr_iff)

section \<open>Runs on a file of 101 rows\<close>




section \<open>The value normalizer\<close>

text \<open>
  C1. For an empty or whitespace-only raw value \<open>sort_value\<close> returns the empty string
  when the type is text and minus infinity when the type is number. When the type is
  date it returns minus infinity as well, a float, and not \<open>datetime.min\<close>, the value the
  same function returns for a date that cannot be parsed.
\<close>

theorem sort_value_empty_date:
  "sort_value float parse [] ''date'' = Inr (Float NegInf)
   \<and> sort_value float parse ''  '' ''date'' = Inr (Float NegInf)
   \<and> Float NegInf \<noteq> Date datetime_min
   \<and> sort_value float parse [] ''text'' = Inr (Str [])
   \<and> sort_value float parse [] ''number'' = Inr (Float NegInf)"
  by (simp add: sort_value_def strip_def isspace_def)

section \<open>The header reconciler\<close>

text \<open>
  C3, as the spec states it, fails: with two configured files of which one is missing,
  one header is readable, and the result is the empty list, not the configured one.
\<close>

theorem reconcile_one_readable_counterexample:
  "length (filter (\<lambda>f. readable_header ((\<lambda>f. if f = ''a'' then Csv [[''X'']] else Missing) f))
            [''a'', ''b'']) < 2
   \<and> snd (get_common_sort_fields
          \<lparr>input_files = [''a'', ''b''],
           sort_cfg = \<lparr>delimiter = '';'',
                       sort_fields = [\<lparr>name = ''X'', ftype = ''text'', forder = ''asc''\<rparr>],
                       order = ''asc''\<rparr>\<rparr>
          (\<lambda>f. if f = ''a'' then Csv [[''X'']] else Missing))
       \<noteq> Inr [\<lparr>name = ''X'', ftype = ''text'', forder = ''asc''\<rparr>]"
  by (simp add: get_common_sort_fields_def exists_def readable_header_def)

text \<open>
  C3, amended. If fewer than two distinct file names are configured, whatever can be
  read of them, \<open>get_common_sort_fields\<close> logs the warning and returns the configured
  list unchanged, and \<open>main\<close> goes on to \<open>process_files\<close> with that list.
\<close>

theorem reconcile_fewer_than_two_files:
  assumes "card (set (input_files cfg)) < 2"
  shows "snd (get_common_sort_fields cfg input_dir) = Inr (sort_fields (sort_cfg cfg))
       \<and> (WARNING, Not_enough_files) \<in> set (fst (get_common_sort_fields cfg input_dir))
       \<and> main float parse cfg input_dir
           = Inr (process_files float parse (sort_fields (sort_cfg cfg)) cfg input_dir)"
  using get_common_sort_fields_few[OF assms, of input_dir] by (simp add: main_def)

theorem reconcile_fewer_than_two_files_witness:
  "card (set (input_files
      \<lparr>input_files = [''a''],
       sort_cfg = \<lparr>delimiter = '';'',
                   sort_fields = [\<lparr>name = ''X'', ftype = ''text'', forder = ''asc''\<rparr>],
                   order = ''asc''\<rparr>\<rparr>)) < 2
   \<and> snd (get_common_sort_fields
          \<lparr>input_files = [''a''],
           sort_cfg = \<lparr>delimiter = '';'',
                       sort_fields = [\<lparr>name = ''X'', ftype = ''text'', forder = ''asc''\<rparr>],
                       order = ''asc''\<rparr>\<rparr>
          (\<lambda>f. Missing))
       = Inr [\<lparr>name = ''X'', ftype = ''text'', forder = ''asc''\<rparr>]"
  using reconcile_fewer_than_two_files
    [of "\<lparr>input_files = [''a''],
          sort_cfg = \<lparr>delimiter = '';'',
                      sort_fields = [\<lparr>name = ''X'', ftype = ''text'', forder = ''asc''\<rparr>],
                      order = ''asc''\<rparr>\<rparr>" "\<lambda>f. Missing"]
  by simp

text \<open>
  C6. With at least two distinct file names configured, the result is the configured
  list filtered, in its order, to the fields whose name is in the intersection of the
  header sets of all configured files.
\<close>

theorem reconcile_filters_to_intersection:
  assumes "2 \<le> card (set (input_files cfg))"
  shows "snd (get_common_sort_fields cfg input_dir)
       = Inr (filter (\<lambda>f. name f \<in> (\<Inter>file \<in> set (input_files cfg). header_set (input_dir file)))
                (sort_fields (sort_cfg cfg)))"
  using assms by (rule get_common_sort_fields_many)

text \<open>The example of the spec: headers \<open>{A,B,C}\<close> and \<open>{B,C,D}\<close>, fields \<open>[A,B,C]\<close>.\<close>

theorem reconcile_filters_to_intersection_witness:
  "2 \<le> card (set [''f1'', ''f2''])
   \<and> snd (get_common_sort_fields
          \<lparr>input_files = [''f1'', ''f2''],
           sort_cfg = \<lparr>delimiter = '';'',
                       sort_fields = [\<lparr>name = ''A'', ftype = ''text'', forder = ''asc''\<rparr>,
                                      \<lparr>name = ''B'', ftype = ''text'', forder = ''asc''\<rparr>,
                                      \<lparr>name = ''C'', ftype = ''text'', forder = ''asc''\<rparr>],
                       order = ''asc''\<rparr>\<rparr>
          (\<lambda>f. if f = ''f1'' then Csv [[''A'', ''B'', ''C'']] else Csv [[''B'', ''C'', ''D'']]))
       = Inr [\<lparr>name = ''B'', ftype = ''text'', forder = ''asc''\<rparr>,
              \<lparr>name = ''C'', ftype = ''text'', forder = ''asc''\<rparr>]"
  using reconcile_filters_to_intersection
    [of "\<lparr>input_files = [''f1'', ''f2''],
          sort_cfg = \<lparr>delimiter = '';'',
                      sort_fields = [\<lparr>name = ''A'', ftype = ''text'', forder = ''asc''\<rparr>,
                                     \<lparr>name = ''B'', ftype = ''text'', forder = ''asc''\<rparr>,
                                     \<lparr>name = ''C'', ftype = ''text'', forder = ''asc''\<rparr>],
                      order = ''asc''\<rparr>\<rparr>"
        "\<lambda>f. if f = ''f1'' then Csv [[''A'', ''B'', ''C'']] else Csv [[''B'', ''C'', ''D'']]"]
  by (simp add: header_set_def)

text \<open>
  C10. With at least two distinct file names configured, a file that is missing or
  whose header cannot be read contributes the empty set, so the intersection of the
  header sets is empty, the list of common sort fields is empty, and the run writes no
  output file at all, also not for the files that exist and can be read.
\<close>

theorem missing_file_aborts_batch:
  assumes "2 \<le> card (set (input_files cfg))"
    and "file \<in> set (input_files cfg)"
    and "input_dir file = Missing \<or> read_header (input_dir file) = Inl e"
  shows "header_set (input_dir file) = {}
       \<and> (\<Inter>f \<in> set (input_files cfg). header_set (input_dir f)) = {}
       \<and> snd (get_common_sort_fields cfg input_dir) = Inr []
       \<and> main float parse cfg input_dir = Inr []"
proof -
  have h: "header_set (input_dir file) = {}" using assms(3) by (auto simp: header_set_def)
  then have i: "(\<Inter>f \<in> set (input_files cfg). header_set (input_dir f)) = {}"
    using assms(2) by blast
  have g: "snd (get_common_sort_fields cfg input_dir) = Inr []"
    unfolding get_common_sort_fields_many[OF assms(1)] i by simp
  show ?thesis using h i g by (simp add: main_def process_files_def)
qed

theorem missing_file_aborts_batch_witness:
  "2 \<le> card (set (input_files
       \<lparr>input_files = [''a'', ''b''],
        sort_cfg = \<lparr>delimiter = '';'',
                    sort_fields = [\<lparr>name = ''X'', ftype = ''text'', forder = ''asc''\<rparr>],
                    order = ''asc''\<rparr>\<rparr>))
   \<and> ''b'' \<in> set (input_files
       \<lparr>input_files = [''a'', ''b''],
        sort_cfg = \<lparr>delimiter = '';'',
                    sort_fields = [\<lparr>name = ''X'', ftype = ''text'', forder = ''asc''\<rparr>],
                    order = ''asc''\<rparr>\<rparr>)
   \<and> (if ''b'' = ''a'' then Csv [[''X''], [''2''], [''1'']] else Missing) = Missing
   \<and> main float_of_digits parse_one_date
       \<lparr>input_files = [''a'', ''b''],
        sort_cfg = \<lparr>delimiter = '';'',
                    sort_fields = [\<lparr>name = ''X'', ftype = ''text'', forder = ''asc''\<rparr>],
                    order = ''asc''\<rparr>\<rparr>
       (\<lambda>f. if f = ''a'' then Csv [[''X''], [''2''], [''1'']] else Missing) = Inr []"
  using missing_file_aborts_batch
    [of "\<lparr>input_files = [''a'', ''b''],
          sort_cfg = \<lparr>delimiter = '';'',
                      sort_fields = [\<lparr>name = ''X'', ftype = ''text'', forder = ''asc''\<rparr>],
                      order = ''asc''\<rparr>\<rparr>"
        "''b''" "\<lambda>f. if f = ''a'' then Csv [[''X''], [''2''], [''1'']] else Missing"
        undefined float_of_digits parse_one_date]
  by simp

section \<open>The file sorter\<close>

text \<open>
  C2 fails on the code. A date column with one cell that parses and one empty cell has
  the keys \<open>(datetime,)\<close> and \<open>(float('-inf'),)\<close>; comparing them raises \<open>TypeError\<close>,
  which leaves \<open>sort_csv_file\<close>, and no output is written. The empty cell is a blank
  line of the file (a row without cells) or an empty cell.
\<close>

theorem empty_date_cell_fails_sort:
  assumes "parse ''2024-01-15'' = Inr d"
  shows "sort_csv_file float parse [\<lparr>name = ''D'', ftype = ''date'', forder = ''asc''\<rparr>]
           (Csv [[''D''], [''2024-01-15''], []])
           \<lparr>delimiter = '';'', sort_fields = [\<lparr>name = ''D'', ftype = ''date'', forder = ''asc''\<rparr>],
            order = ''asc''\<rparr>
         = Inl TypeError
       \<and> sort_csv_file float parse [\<lparr>name = ''D'', ftype = ''date'', forder = ''asc''\<rparr>]
           (Csv [[''D''], [''2024-01-15''], [[]]])
           \<lparr>delimiter = '';'', sort_fields = [\<lparr>name = ''D'', ftype = ''date'', forder = ''asc''\<rparr>],
            order = ''asc''\<rparr>
         = Inl TypeError"
  using assms
  by (simp add: sort_csv_file_def sorted_data_def sorted_py_def sort_key_def sort_value_def
      strip_def isspace_def Let_def)

theorem empty_date_cell_fails_sort_witness:
  "parse_one_date ''2024-01-15'' = Inr (Naive 63840873600000000)
   \<and> sort_csv_file float_of_digits parse_one_date [\<lparr>name = ''D'', ftype = ''date'', forder = ''asc''\<rparr>]
           (Csv [[''D''], [''2024-01-15''], [[]]])
           \<lparr>delimiter = '';'', sort_fields = [\<lparr>name = ''D'', ftype = ''date'', forder = ''asc''\<rparr>],
            order = ''asc''\<rparr>
         = Inl TypeError"
proof -
  have h: "parse_one_date ''2024-01-15'' = Inr (Naive 63840873600000000)"
    by (simp add: parse_one_date_def)
  from empty_date_cell_fails_sort[where parse = parse_one_date and float = float_of_digits, OF h]
  show ?thesis using h by simp
qed





text \<open>
  C4. The per-field \<open>order\<close> values have no effect: two configurations that differ only
  in them give the same run, file for file. The direction comes from \<open>order\<close> of
  \<open>sort_config\<close> alone: when it is \<open>desc\<close> the written rows are in descending order of
  their keys, otherwise in ascending order.
\<close>

theorem direction_from_overall_order_only:
  assumes "input_files cfg' = input_files cfg"
    and "delimiter (sort_cfg cfg') = delimiter (sort_cfg cfg)"
    and "order (sort_cfg cfg') = order (sort_cfg cfg)"
    and "list_all2 same_name_type (sort_fields (sort_cfg cfg')) (sort_fields (sort_cfg cfg))"
    and "sort_csv_file float parse common input_file sc = Inr (Some text)"
  shows "main float parse cfg' input_dir = main float parse cfg input_dir
       \<and> (\<exists>header data_rows field_types sorted.
             input_file = Csv (header # data_rows)
           \<and> resolve_field_types float parse header data_rows common Map.empty = Inr field_types
           \<and> text = write_csv (delimiter sc) header sorted
           \<and> (if order sc = ''desc''
              then descending (sort_key float parse common header field_types) sorted
              else ascending (sort_key float parse common header field_types) sorted))"
proof
  from get_common_sort_fields_cong[OF assms(1) assms(4), of input_dir] obtain fs' fs where
    g: "snd (get_common_sort_fields cfg' input_dir) = Inr fs'"
       "snd (get_common_sort_fields cfg input_dir) = Inr fs"
    and r: "list_all2 same_name_type fs' fs"
    by blast
  have e: "(fs' = []) = (fs = [])" using r by (cases fs'; cases fs) auto
  have "process_files float parse fs' cfg' input_dir = process_files float parse fs cfg input_dir"
    unfolding process_files_def e assms(1) process_loop_cong[OF r assms(2) assms(3)] ..
  then show "main float parse cfg' input_dir = main float parse cfg input_dir"
    by (simp add: main_def g)
next
  from assms(5) show "\<exists>header data_rows field_types sorted.
             input_file = Csv (header # data_rows)
           \<and> resolve_field_types float parse header data_rows common Map.empty = Inr field_types
           \<and> text = write_csv (delimiter sc) header sorted
           \<and> (if order sc = ''desc''
              then descending (sort_key float parse common header field_types) sorted
              else ascending (sort_key float parse common header field_types) sorted)"
  proof (rule sort_csv_file_Some_D)
    fix header data_rows field_types sorted
    assume f: "input_file = Csv (header # data_rows)"
      and ft: "resolve_field_types float parse header data_rows common Map.empty = Inr field_types"
      and s: "sorted_py tuple_lt (sort_key float parse common header field_types) (order sc = ''desc'') data_rows
         = Inr sorted"
      and t: "text = write_csv (delimiter sc) header sorted"
    from sorted_py_direction[OF s] f ft t show ?thesis by blast
  qed
qed

theorem direction_from_overall_order_only_witness:
  "input_files (example_config ''number'' ''asc'' ''desc'') = input_files (example_config ''number'' ''desc'' ''desc'')
   \<and> delimiter (sort_cfg (example_config ''number'' ''asc'' ''desc''))
       = delimiter (sort_cfg (example_config ''number'' ''desc'' ''desc''))
   \<and> order (sort_cfg (example_config ''number'' ''asc'' ''desc''))
       = order (sort_cfg (example_config ''number'' ''desc'' ''desc''))
   \<and> list_all2 same_name_type (sort_fields (sort_cfg (example_config ''number'' ''asc'' ''desc'')))
        (sort_fields (sort_cfg (example_config ''number'' ''desc'' ''desc'')))
   \<and> sort_csv_file float_of_digits parse_one_date
        [\<lparr>name = ''K'', ftype = ''number'', forder = ''asc''\<rparr>] (example_dir ''f1'')
        (sort_cfg (example_config ''number'' ''asc'' ''desc''))
       = Inr (Some (write_csv '';'' [''K'', ''V''] [[''3'', ''b''], [''2'', ''c''], [''1'', ''a'']]))
   \<and> main float_of_digits parse_one_date (example_config ''number'' ''asc'' ''desc'') example_dir
       = main float_of_digits parse_one_date (example_config ''number'' ''desc'' ''desc'') example_dir
   \<and> main float_of_digits parse_one_date (example_config ''number'' ''asc'' ''desc'') example_dir
       = Inr [(''f1_SORT.csv'', write_csv '';'' [''K'', ''V''] [[''3'', ''b''], [''2'', ''c''], [''1'', ''a'']]),
              (''f2_SORT.csv'', write_csv '';'' [''K''] [[''5''], [''4'']])]"
proof -
  have h1: "input_files (example_config ''number'' ''asc'' ''desc'')
          = input_files (example_config ''number'' ''desc'' ''desc'')"
    and h2: "delimiter (sort_cfg (example_config ''number'' ''asc'' ''desc''))
           = delimiter (sort_cfg (example_config ''number'' ''desc'' ''desc''))"
    and h3: "order (sort_cfg (example_config ''number'' ''asc'' ''desc''))
           = order (sort_cfg (example_config ''number'' ''desc'' ''desc''))"
    and h4: "list_all2 same_name_type (sort_fields (sort_cfg (example_config ''number'' ''asc'' ''desc'')))
        (sort_fields (sort_cfg (example_config ''number'' ''desc'' ''desc'')))"
    by (simp_all add: example_config_def same_name_type_def)
  have h5: "sort_csv_file float_of_digits parse_one_date
        [\<lparr>name = ''K'', ftype = ''number'', forder = ''asc''\<rparr>] (example_dir ''f1'')
        (sort_cfg (example_config ''number'' ''asc'' ''desc''))
       = Inr (Some (write_csv '';'' [''K'', ''V''] [[''3'', ''b''], [''2'', ''c''], [''1'', ''a'']]))"
    by code_simp
  have m: "main float_of_digits parse_one_date (example_config ''number'' ''asc'' ''desc'') example_dir
       = Inr [(''f1_SORT.csv'', write_csv '';'' [''K'', ''V''] [[''3'', ''b''], [''2'', ''c''], [''1'', ''a'']]),
              (''f2_SORT.csv'', write_csv '';'' [''K''] [[''5''], [''4'']])]"
    by code_simp
  from direction_from_overall_order_only[OF h1 h2 h3 h4 h5, of example_dir]
  show ?thesis using h1 h2 h3 h4 h5 m by simp
qed




section \<open>The type detector\<close>

text \<open>
  C5. For a sample with at least one value that is not blank, the detector returns
  \<open>number\<close> exactly when more than 80% of the non-blank values parse as floats, so not
  at exactly 80%; and it returns \<open>date\<close> exactly when that is not so, the date parser
  raises nothing but \<open>ValueError\<close> and \<open>TypeError\<close>, and more than 80% of the values
  parse as dates. The quotients are doubles, as in the source; up to \<open>2^50\<close> samples
  (the program passes at most 100) the comparison with the double \<open>0.8\<close> decides as the
  comparison of the exact quotient with 4/5 does.
\<close>

theorem detect_number_iff_above_80_percent:
  assumes "non_empty sample_values \<noteq> []"
    and "length sample_values \<le> 2 ^ 50"
  shows "(detect_field_type float parse sample_values = Inr ''number''
            \<longleftrightarrow> 4 * length (non_empty sample_values) < 5 * number_count float sample_values)
       \<and> (detect_field_type float parse sample_values = Inr ''date''
            \<longleftrightarrow> \<not> 4 * length (non_empty sample_values) < 5 * number_count float sample_values
               \<and> (\<exists>date_count. count_dates parse (non_empty sample_values) = Inr date_count
                     \<and> 4 * length (non_empty sample_values) < 5 * date_count))"
proof -
  let ?ne = "non_empty sample_values"
  let ?n = "length ?ne"
  let ?nc = "number_count float sample_values"
  let ?rest = "bind_exc (count_dates parse ?ne) (\<lambda>date_count.
                 bind_exc (truediv date_count ?n) (\<lambda>q.
                   if float_0_8 < q then Inr ''date'' else Inr ''text''))"
  have s: "sample_values \<noteq> []" using assms(1) by (auto simp: non_empty_def)
  have n: "0 < ?n" using assms(1) by simp
  have "?n \<le> length sample_values" by (simp add: non_empty_def)
  then have n50: "?n \<le> 2 ^ 50" using assms(2) by simp
  have ncn: "?nc \<le> ?n" by (simp add: number_count_def)
  have u: "detect_field_type float parse sample_values
         = bind_exc (truediv ?nc ?n) (\<lambda>q. if float_0_8 < q then Inr ''number'' else ?rest)"
    using s assms(1) unfolding detect_field_type_def Let_def non_empty_def number_count_def by simp
  from truediv_Inr[OF n] obtain q where q: "truediv ?nc ?n = Inr q" by blast
  have g: "float_0_8 < q \<longleftrightarrow> 4 * ?n < 5 * ?nc" using n ncn n50 q by (rule truediv_threshold)
  show ?thesis
  proof (cases "4 * ?n < 5 * ?nc")
    case True
    then have "detect_field_type float parse sample_values = Inr ''number''" using u q g by simp
    then show ?thesis using True by simp
  next
    case False
    then have d: "detect_field_type float parse sample_values = ?rest" using u q g by simp
    show ?thesis
    proof (cases "count_dates parse ?ne")
      case (Inl e)
      then show ?thesis using d False by simp
    next
      case (Inr dc)
      then have dcn: "dc \<le> ?n" by (rule count_dates_le)
      from truediv_Inr[OF n] obtain q' where q': "truediv dc ?n = Inr q'" by blast
      have g': "float_0_8 < q' \<longleftrightarrow> 4 * ?n < 5 * dc" using n dcn n50 q' by (rule truediv_threshold)
      have "detect_field_type float parse sample_values
              = (if 4 * ?n < 5 * dc then Inr ''date'' else Inr ''text'')"
        using d Inr q' g' by simp
      then show ?thesis using False Inr by simp
    qed
  qed
qed

theorem detect_number_iff_above_80_percent_witness:
  "non_empty [''1'', ''2'', '' 3 '', ''4'', ''x'', '' ''] \<noteq> []
   \<and> length [''1'', ''2'', '' 3 '', ''4'', ''x'', '' ''] \<le> 2 ^ 50
   \<and> length (non_empty [''1'', ''2'', '' 3 '', ''4'', ''x'', '' '']) = 5
   \<and> number_count float_of_digits [''1'', ''2'', '' 3 '', ''4'', ''x'', '' ''] = 4
   \<and> detect_field_type float_of_digits parse_one_date [''1'', ''2'', '' 3 '', ''4'', ''x'', '' ''] \<noteq> Inr ''number''
   \<and> detect_field_type float_of_digits parse_one_date [''1'', ''2'', '' 3 '', ''4'', ''x'', '' ''] = Inr ''text''"
proof -
  have h1: "non_empty [''1'', ''2'', '' 3 '', ''4'', ''x'', '' ''] \<noteq> []" by code_simp
  have h2: "length [''1'', ''2'', '' 3 '', ''4'', ''x'', '' ''] \<le> 2 ^ 50" by simp
  have l: "length (non_empty [''1'', ''2'', '' 3 '', ''4'', ''x'', '' '']) = 5" by code_simp
  have c: "number_count float_of_digits [''1'', ''2'', '' 3 '', ''4'', ''x'', '' ''] = 4" by code_simp
  have t: "detect_field_type float_of_digits parse_one_date [''1'', ''2'', '' 3 '', ''4'', ''x'', '' '']
             = Inr ''text''"
    by code_simp
  from detect_number_iff_above_80_percent[OF h1 h2, of float_of_digits parse_one_date]
  have "detect_field_type float_of_digits parse_one_date [''1'', ''2'', '' 3 '', ''4'', ''x'', '' '']
          \<noteq> Inr ''number''"
    using l c by simp
  then show ?thesis using h1 h2 l c t by simp
qed

end
